theory Spec2Isabelle
  imports Main "HOL-Library.AList"
begin

section \<open>The crawl server (server.py): link mapping and batch saving\<close>

text \<open>
  The development embeds the three tools of \<^verbatim>\<open>server.py\<close>: \<^verbatim>\<open>get_filepath\<close>,
  \<^verbatim>\<open>map_links\<close> and \<^verbatim>\<open>batch_save\<close>. Python strings are HOL strings, Python
  dictionaries are association lists in insertion order, exceptions are values
  (\<open>Inl\<close> of the message that \<^verbatim>\<open>str(e)\<close> would give), and the file system is an
  explicit state that every operation takes and returns. Everything the program gets
  from outside (HTTP responses, the HTML parser, the markdown converter, the clock,
  the environment, refusals of the operating system) is a field of the record
  \<open>world\<close>.
\<close>

subsection \<open>Python string methods\<close>

text \<open>\<^verbatim>\<open>s.startswith(p)\<close>, \<^verbatim>\<open>s.endswith(p)\<close> and \<^verbatim>\<open>sub in s\<close>.\<close>

definition startswith :: "string \<Rightarrow> string \<Rightarrow> bool" where
  "startswith s p = (take (length p) s = p)"

definition endswith :: "string \<Rightarrow> string \<Rightarrow> bool" where
  "endswith s p = (length p \<le> length s \<and> drop (length s - length p) s = p)"

fun contains :: "string \<Rightarrow> string \<Rightarrow> bool" where
  "contains [] sub = (sub = [])"
| "contains (c # cs) sub = (startswith (c # cs) sub \<or> contains cs sub)"

text \<open>
  \<^verbatim>\<open>s.replace(old, new)\<close>: the occurrences of \<open>old\<close> are found from the left and do
  not overlap; the scan goes on after the occurrence, never inside the inserted text.
\<close>

function py_replace :: "string \<Rightarrow> string \<Rightarrow> string \<Rightarrow> string" where
  "py_replace old new [] = (if old = [] then new else [])"
| "py_replace old new (c # cs) =
     (if old = [] then new @ c # py_replace old new cs
      else if startswith (c # cs) old
        then new @ py_replace old new (drop (length old) (c # cs))
      else c # py_replace old new cs)"
  by pat_completeness auto
termination
  by (relation "measure (\<lambda>(old, new, s). length s)") auto

text \<open>\<^verbatim>\<open>s.split(sep)\<close> for a separator of one character: never the empty list.\<close>

fun split_sep :: "char \<Rightarrow> string \<Rightarrow> string list" where
  "split_sep sep [] = [[]]"
| "split_sep sep (c # cs) =
     (if c = sep then [] # split_sep sep cs
      else (case split_sep sep cs of
              [] \<Rightarrow> [[c]]
            | x # xs \<Rightarrow> (c # x) # xs))"

text \<open>\<^verbatim>\<open>sep.join(parts)\<close>.\<close>

fun join_sep :: "string \<Rightarrow> string list \<Rightarrow> string" where
  "join_sep sep [] = []"
| "join_sep sep [x] = x"
| "join_sep sep (x # y # ys) = x @ sep @ join_sep sep (y # ys)"

text \<open>
  \<^verbatim>\<open>s.strip()\<close>. The white space of the model is the ASCII white space of
  \<^verbatim>\<open>str.isspace\<close>: tab, line feed, vertical tab, form feed, carriage return, the
  separators 0x1C to 0x1F and the space.
\<close>

definition is_space :: "char \<Rightarrow> bool" where
  "is_space c = (let n = (of_char c :: nat) in (9 \<le> n \<and> n \<le> 13) \<or> (28 \<le> n \<and> n \<le> 32))"

definition strip :: "string \<Rightarrow> string" where
  "strip s = rev (dropWhile is_space (rev (dropWhile is_space s)))"

text \<open>\<^verbatim>\<open>str(n)\<close> for a natural number, as the f-string of the counter prints it.\<close>

definition digit_char :: "nat \<Rightarrow> char" where
  "digit_char d = char_of (48 + d)"

function str_nat :: "nat \<Rightarrow> string" where
  "str_nat n = (if n < 10 then [digit_char n] else str_nat (n div 10) @ [digit_char (n mod 10)])"
  by pat_completeness auto
termination
  by (relation "measure (\<lambda>n. n)") auto

declare str_nat.simps [simp del]

subsection \<open>os.path (posixpath)\<close>

text \<open>
  \<^verbatim>\<open>os.path.join(a, *p)\<close>: a component that starts with a slash replaces what was
  joined so far; otherwise it is appended, after a slash unless the path is empty or
  ends with one.
\<close>

definition join2 :: "string \<Rightarrow> string \<Rightarrow> string" where
  "join2 p b =
     (if startswith b ''/'' then b
      else if p = [] \<or> endswith p ''/'' then p @ b
      else p @ ''/'' @ b)"

definition os_path_join :: "string \<Rightarrow> string list \<Rightarrow> string" where
  "os_path_join a p = foldl join2 a p"

text \<open>
  \<^verbatim>\<open>os.path.normpath\<close>: empty and \<^verbatim>\<open>.\<close> components go, a \<^verbatim>\<open>..\<close> removes the
  component before it (at the root it goes itself; in a relative path with nothing before
  it, it stays); exactly two leading slashes are kept, three or more are one.
\<close>

fun norm_comps :: "bool \<Rightarrow> string list \<Rightarrow> string list \<Rightarrow> string list" where
  "norm_comps initial_slashes new_comps [] = new_comps"
| "norm_comps initial_slashes new_comps (c # cs) =
     (if c = [] \<or> c = ''.'' then norm_comps initial_slashes new_comps cs
      else if c \<noteq> ''..'' \<or> (\<not> initial_slashes \<and> new_comps = [])
                \<or> (new_comps \<noteq> [] \<and> last new_comps = ''..'')
        then norm_comps initial_slashes (new_comps @ [c]) cs
      else if new_comps \<noteq> [] then norm_comps initial_slashes (butlast new_comps) cs
      else norm_comps initial_slashes new_comps cs)"

definition normpath :: "string \<Rightarrow> string" where
  "normpath p =
     (if p = [] then ''.''
      else let initial_slashes =
                 (if startswith p ''//'' \<and> \<not> startswith p ''///'' then 2
                  else if startswith p ''/'' then 1 else (0::nat));
               joined = replicate initial_slashes CHR ''/''
                          @ join_sep ''/'' (norm_comps (0 < initial_slashes) [] (split_sep CHR ''/'' p))
           in if joined = [] then ''.'' else joined)"

text \<open>\<^verbatim>\<open>os.path.abspath\<close>, with the working directory as a parameter.\<close>

definition abspath :: "string \<Rightarrow> string \<Rightarrow> string" where
  "abspath cwd p = normpath (if startswith p ''/'' then p else join2 cwd p)"

text \<open>
  \<^verbatim>\<open>os.path.relpath(path, start)\<close>: it raises \<^verbatim>\<open>ValueError\<close> on an empty path;
  otherwise both paths are made absolute, their common leading components are dropped,
  and one \<^verbatim>\<open>..\<close> is written for each remaining component of \<open>start\<close>.
\<close>

fun common_prefix_len :: "string list \<Rightarrow> string list \<Rightarrow> nat" where
  "common_prefix_len (x # xs) (y # ys) = (if x = y then Suc (common_prefix_len xs ys) else 0)"
| "common_prefix_len _ _ = 0"

definition relpath :: "string \<Rightarrow> string \<Rightarrow> string \<Rightarrow> string + string" where
  "relpath cwd p start =
     (if p = [] then Inl ''no path specified''
      else let start_list = filter (\<lambda>x. x \<noteq> []) (split_sep CHR ''/'' (abspath cwd start));
               path_list = filter (\<lambda>x. x \<noteq> []) (split_sep CHR ''/'' (abspath cwd p));
               i = common_prefix_len start_list path_list;
               rel_list = replicate (length start_list - i) ''..'' @ drop i path_list
           in if rel_list = [] then Inr ''.''
              else Inr (os_path_join (hd rel_list) (tl rel_list)))"

subsection \<open>urllib.parse.urlparse\<close>

text \<open>
  The parts of \<^verbatim>\<open>urlparse\<close> that the server reads are the authority (\<open>netloc\<close>) and the
  path. The model follows CPython's \<^verbatim>\<open>urlsplit\<close>: leading control characters and
  spaces are stripped, tabs and line breaks removed, a scheme is split off at the first
  colon when everything before it is a scheme name, the authority after \<^verbatim>\<open>//\<close> ends at
  the first of \<^verbatim>\<open>/ ? #\<close>, then the fragment, the query and (for the schemes that have
  them) the parameters of the last segment are cut off the path.
  \<^verbatim>\<open>urlsplit\<close> raises \<^verbatim>\<open>ValueError\<close> on an authority with one square bracket only; its
  further checks (of the host between brackets, of an authority that is not ASCII)
  are a question to the world.
\<close>

record parsed_url =
  scheme :: string
  netloc :: string
  path :: string

definition is_alpha :: "char \<Rightarrow> bool" where
  "is_alpha c = (let n = (of_char c :: nat) in (65 \<le> n \<and> n \<le> 90) \<or> (97 \<le> n \<and> n \<le> 122))"

definition is_scheme_char :: "char \<Rightarrow> bool" where
  "is_scheme_char c =
     (let n = (of_char c :: nat)
      in is_alpha c \<or> (48 \<le> n \<and> n \<le> 57) \<or> c = CHR ''+'' \<or> c = CHR ''-'' \<or> c = CHR ''.'')"

definition lower_char :: "char \<Rightarrow> char" where
  "lower_char c =
     (let n = (of_char c :: nat) in if 65 \<le> n \<and> n \<le> 90 then char_of (n + 32) else c)"

definition uses_params :: "string list" where
  "uses_params = ['''', ''ftp'', ''hdl'', ''prospero'', ''http'', ''imap'', ''https'', ''shttp'',
                  ''rtsp'', ''rtsps'', ''rtspu'', ''sip'', ''sips'', ''mms'', ''sftp'', ''tel'']"

definition clean_url :: "string \<Rightarrow> string" where
  "clean_url url =
     filter (\<lambda>c. c \<noteq> char_of (9::nat) \<and> c \<noteq> char_of (10::nat) \<and> c \<noteq> char_of (13::nat))
       (dropWhile (\<lambda>c. (of_char c :: nat) \<le> 32) url)"

definition split_scheme :: "string \<Rightarrow> string \<times> string" where
  "split_scheme url =
     (let pre = takeWhile (\<lambda>c. c \<noteq> CHR '':'') url
      in if length pre < length url \<and> pre \<noteq> [] \<and> is_alpha (hd pre) \<and> list_all is_scheme_char pre
         then (map lower_char pre, drop (Suc (length pre)) url)
         else ([], url))"

definition is_netloc_end :: "char \<Rightarrow> bool" where
  "is_netloc_end c = (c = CHR ''/'' \<or> c = CHR ''?'' \<or> c = CHR ''#'')"

definition split_netloc :: "string \<Rightarrow> string \<times> string" where
  "split_netloc url =
     (if take 2 url = ''//''
      then (takeWhile (\<lambda>c. \<not> is_netloc_end c) (drop 2 url),
            dropWhile (\<lambda>c. \<not> is_netloc_end c) (drop 2 url))
      else ([], url))"

definition split_params :: "string \<Rightarrow> string" where
  "split_params url =
     (let r = rev url
      in rev (dropWhile (\<lambda>c. c \<noteq> CHR ''/'') r)
           @ takeWhile (\<lambda>c. c \<noteq> CHR '';'') (rev (takeWhile (\<lambda>c. c \<noteq> CHR ''/'') r)))"

definition netloc_check :: "(string \<Rightarrow> string option) \<Rightarrow> string \<Rightarrow> string option" where
  "netloc_check rejected nl =
     (let lb = CHR ''['' \<in> set nl; rb = CHR '']'' \<in> set nl
      in if lb \<noteq> rb then Some ''Invalid IPv6 URL''
         else if lb \<or> list_ex (\<lambda>c. 128 \<le> (of_char c :: nat)) nl then rejected nl
         else None)"

definition urlparse_with :: "(string \<Rightarrow> string option) \<Rightarrow> string \<Rightarrow> string + parsed_url" where
  "urlparse_with rejected url0 =
     (let (sch, url1) = split_scheme (clean_url url0);
          (nl, url2) = split_netloc url1;
          url3 = takeWhile (\<lambda>c. c \<noteq> CHR ''#'') url2;
          url4 = takeWhile (\<lambda>c. c \<noteq> CHR ''?'') url3;
          url5 = (if sch \<in> set uses_params \<and> CHR '';'' \<in> set url4 then split_params url4 else url4)
      in case netloc_check rejected nl of
           Some e \<Rightarrow> Inl e
         | None \<Rightarrow> Inr \<lparr>scheme = sch, netloc = nl, path = url5\<rparr>)"

subsection \<open>The world outside the program\<close>

text \<open>
  What \<^verbatim>\<open>BeautifulSoup(response.content, 'html.parser')\<close> gives, as far as the
  server reads it: \<^verbatim>\<open>str(soup)\<close>; \<^verbatim>\<open>soup.title\<close> (\<open>None\<close> when the document has no
  title element) with its \<^verbatim>\<open>.string\<close> (\<open>Some None\<close> for a title element whose string
  is Python's \<^verbatim>\<open>None\<close>, as for an empty element); the first meta element named
  \<^verbatim>\<open>description\<close> with its \<^verbatim>\<open>content\<close> attribute, if it has one; and for every
  anchor that has an \<^verbatim>\<open>href\<close>, in document order, the \<^verbatim>\<open>href\<close> and the text.
\<close>

record soup =
  markup :: string
  title_tag :: "string option option"
  meta_description :: "string option option"
  anchors :: "(string \<times> string) list"

text \<open>
  A call that can raise returns a sum: \<open>Inl\<close> of the exception's message. The number
  given to \<open>requests_get\<close> and \<open>now_isoformat\<close> is the position of the call in the
  batch, so that the same address can answer differently each time it is fetched.
  \<open>mkdir_refused\<close> and \<open>open_refused\<close> are the refusals of the operating system that
  the file-system model below does not explain (permissions, a full disk, a name too
  long), asked for the resolved path.
\<close>

record world =
  cwd :: string
  environ_OUTPUT_PATH :: "string option"
  mcp_get_config :: "string + (string \<times> string) list"
  requests_get :: "nat \<Rightarrow> string \<Rightarrow> string + string"
  BeautifulSoup :: "string \<Rightarrow> string + soup"
  h2t_handle :: "string \<Rightarrow> string + string"
  now_isoformat :: "nat \<Rightarrow> string"
  netloc_rejected :: "string \<Rightarrow> string option"
  mkdir_refused :: "string list \<Rightarrow> string option"
  open_refused :: "string list \<Rightarrow> string option"

definition urlparse :: "world \<Rightarrow> string \<Rightarrow> string + parsed_url" where
  "urlparse w url = urlparse_with (netloc_rejected w) url"

subsection \<open>The file system\<close>

text \<open>
  A file system is a finite table from resolved paths (the list of directory names
  from the root, then the name) to nodes; the first entry for a path is the current
  one. The root is a directory. Paths are resolved as the kernel does it, component by
  component from the root or from the working directory: \<^verbatim>\<open>.\<close> and empty components
  stay, \<^verbatim>\<open>..\<close> goes up, and every component is looked up in a directory that exists.
  There are no symbolic links.
\<close>

datatype node = File string | Dir

type_synonym filesystem = "(string list \<times> node) list"

definition node_at :: "filesystem \<Rightarrow> string list \<Rightarrow> node option" where
  "node_at fs k = (if k = [] then Some Dir else map_of fs k)"

definition is_dir :: "filesystem \<Rightarrow> string list \<Rightarrow> bool" where
  "is_dir fs k = (node_at fs k = Some Dir)"

fun walk :: "filesystem \<Rightarrow> string list \<Rightarrow> string list \<Rightarrow> string list option" where
  "walk fs cur [] = Some cur"
| "walk fs cur (c # cs) =
     (if \<not> is_dir fs cur then None
      else if c = [] \<or> c = ''.'' then walk fs cur cs
      else if c = ''..'' then walk fs (butlast cur) cs
      else walk fs (cur @ [c]) cs)"

definition resolve :: "world \<Rightarrow> filesystem \<Rightarrow> string \<Rightarrow> string list option" where
  "resolve w fs p =
     (if p = [] then None else walk fs [] (split_sep CHR ''/'' (join2 (cwd w) p)))"

text \<open>\<^verbatim>\<open>os.path.exists(p)\<close>.\<close>

definition path_exists :: "world \<Rightarrow> filesystem \<Rightarrow> string \<Rightarrow> bool" where
  "path_exists w fs p =
     (case resolve w fs p of
        None \<Rightarrow> False
      | Some k \<Rightarrow> node_at fs k \<noteq> None)"

text \<open>
  \<^verbatim>\<open>os.makedirs(p, exist_ok=True)\<close>: every directory on the way is created unless it
  is there; a file on the way, or a refusal of the operating system to create a
  directory, raises, and the directories made before stay. The second component of the
  result is the message of the exception, if one was raised. (Of CPython's message
  only the part before the path is kept.)
\<close>

fun mkdirs_walk :: "world \<Rightarrow> filesystem \<Rightarrow> string list \<Rightarrow> string list \<Rightarrow> filesystem \<times> string option" where
  "mkdirs_walk w fs cur [] = (fs, None)"
| "mkdirs_walk w fs cur (c # cs) =
     (if c = [] \<or> c = ''.'' then mkdirs_walk w fs cur cs
      else if c = ''..'' then mkdirs_walk w fs (butlast cur) cs
      else (case node_at fs (cur @ [c]) of
              Some Dir \<Rightarrow> mkdirs_walk w fs (cur @ [c]) cs
            | Some (File content) \<Rightarrow>
                (fs, Some (if cs = [] then ''[Errno 17] File exists'' else ''[Errno 20] Not a directory''))
            | None \<Rightarrow>
                (case mkdir_refused w (cur @ [c]) of
                   Some e \<Rightarrow> (fs, Some e)
                 | None \<Rightarrow> mkdirs_walk w ((cur @ [c], Dir) # fs) (cur @ [c]) cs)))"

definition makedirs :: "world \<Rightarrow> filesystem \<Rightarrow> string \<Rightarrow> filesystem \<times> string option" where
  "makedirs w fs p =
     (if p = [] then (fs, Some ''[Errno 2] No such file or directory'')
      else mkdirs_walk w fs [] (split_sep CHR ''/'' (join2 (cwd w) p)))"

text \<open>
  \<^verbatim>\<open>with open(p, 'w', encoding='utf-8') as f: f.write(content)\<close>: the directory of
  the file must exist, the path must not be a directory; an existing file is replaced.
  On failure the file system is as before.
\<close>

definition write_file :: "world \<Rightarrow> filesystem \<Rightarrow> string \<Rightarrow> string \<Rightarrow> filesystem \<times> string option" where
  "write_file w fs p content =
     (case resolve w fs p of
        None \<Rightarrow> (fs, Some ''[Errno 2] No such file or directory'')
      | Some k \<Rightarrow>
          (case node_at fs k of
             Some Dir \<Rightarrow> (fs, Some ''[Errno 21] Is a directory'')
           | _ \<Rightarrow>
               (case open_refused w k of
                  Some e \<Rightarrow> (fs, Some e)
                | None \<Rightarrow> ((k, File content) # fs, None))))"

subsection \<open>get_filepath\<close>

definition get_filepath :: "world \<Rightarrow> filesystem \<Rightarrow> filesystem \<times> (string + string)" where
  "get_filepath w fs =
     (let from_config =
            (case mcp_get_config w of
               Inl e \<Rightarrow> ''./output''
             | Inr config \<Rightarrow>
                 (case map_of config ''default_output_path'' of
                    None \<Rightarrow> ''./output''
                  | Some v \<Rightarrow> v));
          p = (case environ_OUTPUT_PATH w of
                 None \<Rightarrow> from_config
               | Some v \<Rightarrow> if v = [] then from_config else v)
      in case makedirs w fs p of
           (fs', Some e) \<Rightarrow> (fs', Inl e)
         | (fs', None) \<Rightarrow> (fs', Inr (abspath (cwd w) p)))"

subsection \<open>map_links\<close>

datatype links_result = LinksSuccess "(string \<times> string) list" | LinksError string

definition eligible :: "string \<Rightarrow> bool" where
  "eligible href =
     (startswith href ''http'' \<and> \<not> contains href ''youtube.com'' \<and> \<not> contains href ''youtu.be'')"

definition link_text :: "string \<Rightarrow> string \<Rightarrow> string" where
  "link_text href text = (if strip text = [] then href else strip text)"

text \<open>
  The loop over the anchors. Assigning to a key that the dictionary has replaces the
  value where the key stands; a new key goes to the end: this is \<open>AList.update\<close>.
\<close>

fun collect_links :: "(string \<times> string) list \<Rightarrow> (string \<times> string) list \<Rightarrow> (string \<times> string) list" where
  "collect_links links [] = links"
| "collect_links links ((href, text) # rest) =
     collect_links
       (if eligible href then AList.update href (link_text href text) links else links) rest"

definition map_links :: "world \<Rightarrow> nat \<Rightarrow> string \<Rightarrow> links_result" where
  "map_links w t url =
     (case requests_get w t url of
        Inl e \<Rightarrow> LinksError e
      | Inr content \<Rightarrow>
          (case BeautifulSoup w content of
             Inl e \<Rightarrow> LinksError e
           | Inr sp \<Rightarrow> LinksSuccess (collect_links [] (anchors sp))))"

subsection \<open>batch_save: the path of a document\<close>

text \<open>Lines 282 to 298: the directory and the file name that a URL gives.\<close>

definition domain_dir_of :: "parsed_url \<Rightarrow> string" where
  "domain_dir_of parsed = py_replace '':'' ''_'' (netloc parsed)"

definition path_parts_of :: "parsed_url \<Rightarrow> string list" where
  "path_parts_of parsed =
     (let path_parts = filter (\<lambda>p. p \<noteq> []) (split_sep CHR ''/'' (path parsed))
      in if path_parts = [] then [''index''] else path_parts)"

definition filename_of :: "parsed_url \<Rightarrow> string" where
  "filename_of parsed =
     (let filename = py_replace ''.php'' [] (py_replace ''.html'' [] (last (path_parts_of parsed)))
      in if filename = [] then ''index'' else filename)"

definition file_dir_of :: "string \<Rightarrow> parsed_url \<Rightarrow> string" where
  "file_dir_of base parsed =
     os_path_join base (domain_dir_of parsed # butlast (path_parts_of parsed))"

text \<open>Lines 302 to 306: the first name that is not taken.\<close>

definition candidate :: "string \<Rightarrow> string \<Rightarrow> nat \<Rightarrow> string" where
  "candidate file_dir filename counter =
     join2 file_dir (filename @ ''_'' @ str_nat counter @ ''.md'')"

text \<open>
  The loop ends because the names it tries differ in the number they carry, and the
  file system has finitely many entries. The lemmas up to \<open>finite_candidates\<close> say so:
  the path of a candidate resolves to the directory of the file followed by one name,
  and \<^verbatim>\<open>str\<close> is injective.
\<close>

lemma split_sep_ne: "split_sep sep s \<noteq> []"
  by (induction s) (auto split: list.splits)

lemma split_sep_append_nosep:
  "sep \<notin> set t \<Longrightarrow> split_sep sep (s @ t) = butlast (split_sep sep s) @ [last (split_sep sep s) @ t]"
proof (induction s)
  case Nil
  then show ?case by (induction t) (auto split: list.splits)
next
  case (Cons c s)
  then show ?case using split_sep_ne[of sep s] by (auto split: list.splits)
qed

lemma walk_snoc:
  "c \<noteq> [] \<Longrightarrow> c \<noteq> ''.'' \<Longrightarrow> c \<noteq> ''..'' \<Longrightarrow>
   walk fs cur (cs @ [c]) = (case walk fs cur cs of None \<Rightarrow> None | Some k \<Rightarrow> if is_dir fs k then Some (k @ [c]) else None)"
  by (induction cs arbitrary: cur) auto

definition digits_value :: "string \<Rightarrow> nat" where
  "digits_value s = foldl (\<lambda>a c. 10 * a + (of_char c - 48)) 0 s"

lemma of_char_digit: "d < 10 \<Longrightarrow> (of_char (digit_char d) :: nat) = 48 + d"
  by (simp add: digit_char_def)

lemma digits_value_str_nat: "digits_value (str_nat n) = n"
proof (induction n rule: str_nat.induct)
  case (1 n)
  show ?case
  proof (cases "n < 10")
    case True
    then show ?thesis by (subst str_nat.simps) (simp add: digits_value_def of_char_digit)
  next
    case False
    with 1 have "digits_value (str_nat (n div 10)) = n div 10" by simp
    with False show ?thesis
      by (subst str_nat.simps) (simp add: digits_value_def of_char_digit)
  qed
qed

lemma str_nat_inj: "str_nat m = str_nat n \<Longrightarrow> m = n"
  by (metis digits_value_str_nat)

lemma digit_char_no_slash: "d < 10 \<Longrightarrow> digit_char d \<noteq> CHR ''/''"
proof
  assume "d < 10" "digit_char d = CHR ''/''"
  then have "(of_char (digit_char d) :: nat) = of_char CHR ''/''" by simp
  with \<open>d < 10\<close> show False by (simp add: of_char_digit)
qed

lemma str_nat_no_slash: "CHR ''/'' \<notin> set (str_nat n)"
proof (induction n rule: str_nat.induct)
  case (1 n)
  show ?case
  proof (cases "n < 10")
    case True
    then have "digit_char n \<noteq> CHR ''/''" by (rule digit_char_no_slash)
    with True show ?thesis by (subst str_nat.simps) auto
  next
    case False
    have "digit_char (n mod 10) \<noteq> CHR ''/''" by (rule digit_char_no_slash) simp
    with False 1 show ?thesis by (subst str_nat.simps) auto
  qed
qed

lemma join2_append:
  "x \<noteq> [] \<or> \<not> startswith y ''/'' \<Longrightarrow> join2 p (x @ y) = join2 p x @ y"
  by (cases x) (auto simp: join2_def startswith_def)

definition name_parent :: "world \<Rightarrow> filesystem \<Rightarrow> string \<Rightarrow> string \<Rightarrow> string list option" where
  "name_parent w fs d f =
     (case walk fs [] (butlast (split_sep CHR ''/'' (join2 (cwd w) (join2 d f)))) of
        None \<Rightarrow> None
      | Some k \<Rightarrow> if is_dir fs k then Some k else None)"

definition name_stem :: "world \<Rightarrow> string \<Rightarrow> string \<Rightarrow> string" where
  "name_stem w d f = last (split_sep CHR ''/'' (join2 (cwd w) (join2 d f)))"

lemma resolve_suffixed:
  assumes "CHR ''/'' \<notin> set t" "t \<noteq> []" "last t \<noteq> CHR ''.''"
  shows "resolve w fs (join2 d (f @ t)) = map_option (\<lambda>k. k @ [name_stem w d f @ t]) (name_parent w fs d f)"
proof -
  have ns: "\<not> startswith t ''/''" using assms(1,2) by (cases t) (auto simp: startswith_def)
  have j1: "join2 d (f @ t) = join2 d f @ t" using ns by (simp add: join2_append)
  have j2: "join2 (cwd w) (join2 d f @ t) = join2 (cwd w) (join2 d f) @ t"
    using ns by (simp add: join2_append)
  have ne: "join2 d (f @ t) \<noteq> []" using assms(2) j1 by simp
  let ?c = "name_stem w d f @ t"
  have lc: "last ?c \<noteq> CHR ''.''" using assms(2,3) by simp
  have c: "?c \<noteq> []" "?c \<noteq> ''.''" "?c \<noteq> ''..''"
  proof -
    show "?c \<noteq> []" using assms(2) by simp
    show "?c \<noteq> ''.''" using lc by (metis last.simps)
    have "last ''..'' = CHR ''.''" by simp
    then show "?c \<noteq> ''..''" using lc by metis
  qed
  show ?thesis
    unfolding resolve_def using ne
    by (simp add: j1 j2 split_sep_append_nosep[OF assms(1)] walk_snoc[OF c]
        name_parent_def name_stem_def[symmetric] split: option.splits)
qed

lemma candidate_suffix: "candidate d f j = join2 d (f @ (''_'' @ str_nat j @ ''.md''))"
  by (simp add: candidate_def)

lemma resolve_candidate:
  "resolve w fs (candidate d f j)
   = map_option (\<lambda>k. k @ [name_stem w d f @ ''_'' @ str_nat j @ ''.md'']) (name_parent w fs d f)"
  unfolding candidate_suffix
  by (subst resolve_suffixed) (auto simp: str_nat_no_slash)

lemma node_at_in_table: "k \<noteq> [] \<Longrightarrow> node_at fs k \<noteq> None \<Longrightarrow> k \<in> fst ` set fs"
  by (auto simp: node_at_def dest: map_of_SomeD intro: rev_image_eqI)

lemma finite_candidates: "finite {j. path_exists w fs (candidate d f j)}"
proof (cases "name_parent w fs d f")
  case None
  then show ?thesis by (simp add: path_exists_def resolve_candidate)
next
  case (Some k)
  let ?g = "\<lambda>j. k @ [name_stem w d f @ ''_'' @ str_nat j @ ''.md'']"
  have "inj ?g" by (auto simp: inj_on_def dest: str_nat_inj)
  then have "finite (?g -` (fst ` set fs))" by (intro finite_vimageI) auto
  moreover have "{j. path_exists w fs (candidate d f j)} \<subseteq> ?g -` (fst ` set fs)"
    using Some by (auto simp: path_exists_def resolve_candidate intro!: node_at_in_table)
  ultimately show ?thesis by (rule rev_finite_subset)
qed


text \<open>
  The \<^verbatim>\<open>while\<close> loop, with the two variables it assigns: \<open>filepath\<close> and \<open>counter\<close>.
\<close>

function unique_loop :: "world \<Rightarrow> filesystem \<Rightarrow> string \<Rightarrow> string \<Rightarrow> string \<Rightarrow> nat \<Rightarrow> string" where
  "unique_loop w fs file_dir filename filepath counter =
     (if path_exists w fs filepath
      then unique_loop w fs file_dir filename (candidate file_dir filename counter) (Suc counter)
      else filepath)"
  by pat_completeness auto
termination
proof (relation "measure (\<lambda>(w, fs, d, f, fp, k).
          2 * (Suc (Max (insert 0 {j. path_exists w fs (candidate d f j)})) - k)
          + (if path_exists w fs fp then 1 else 0))", goal_cases)
  case 1
  show ?case by simp
next
  case (2 w fs d f fp k)
  let ?K = "insert 0 {j. path_exists w fs (candidate d f j)}"
  have fin: "finite ?K" by (simp add: finite_candidates)
  show ?case
  proof (cases "path_exists w fs (candidate d f k)")
    case True
    then have "k \<in> ?K" by simp
    then have "k \<le> Max ?K" using fin by (rule Max_ge[rotated])
    then show ?thesis using 2 True by simp
  next
    case False
    then show ?thesis using 2 by simp
  qed
qed


declare unique_loop.simps [simp del]

definition unique_filepath :: "world \<Rightarrow> filesystem \<Rightarrow> string \<Rightarrow> string \<Rightarrow> string" where
  "unique_filepath w fs file_dir filename =
     unique_loop w fs file_dir filename (join2 file_dir (filename @ ''.md'')) 1"

subsection \<open>batch_save: one URL\<close>

text \<open>An entry of \<^verbatim>\<open>results\<close>: a saved document with its path and title, or an error.\<close>

datatype outcome =
    Saved string string "string option"
  | Failed string string


fun outcome_status :: "outcome \<Rightarrow> string" where
  "outcome_status (Saved url p title) = ''saved''"
| "outcome_status (Failed url e) = ''error''"

text \<open>How an f-string prints a value that is a string or \<^verbatim>\<open>None\<close>.\<close>

fun fmt :: "string option \<Rightarrow> string" where
  "fmt None = ''None''"
| "fmt (Some s) = s"

definition title_of :: "soup \<Rightarrow> string \<Rightarrow> string option" where
  "title_of sp filename = (case title_tag sp of None \<Rightarrow> Some filename | Some s \<Rightarrow> s)"

definition description_of :: "soup \<Rightarrow> string" where
  "description_of sp =
     (case meta_description sp of
        None \<Rightarrow> []
      | Some None \<Rightarrow> []
      | Some (Some c) \<Rightarrow> c)"

definition newline :: string where
  "newline = [char_of (10::nat)]"

definition metadata_of :: "string option \<Rightarrow> string \<Rightarrow> string \<Rightarrow> string \<Rightarrow> string \<Rightarrow> string" where
  "metadata_of title url domain description date_saved =
     ''---'' @ newline
     @ ''title: '' @ fmt title @ newline
     @ ''url: '' @ url @ newline
     @ ''domain: '' @ domain @ newline
     @ ''description: '' @ description @ newline
     @ ''date_saved: '' @ date_saved @ newline
     @ ''---'' @ newline @ newline"

text \<open>
  The body of the \<^verbatim>\<open>for\<close> loop (lines 274 to 341) for the URL at position \<open>i\<close>:
  every statement that can raise is a \<open>case\<close>, and the \<^verbatim>\<open>except\<close> clause is the
  \<open>Failed\<close> entry with the message. Directories made before a failure stay.
\<close>

definition process_url :: "world \<Rightarrow> nat \<Rightarrow> filesystem \<Rightarrow> string \<Rightarrow> string \<Rightarrow> filesystem \<times> outcome" where
  "process_url w i fs base url =
     (case requests_get w i url of
        Inl e \<Rightarrow> (fs, Failed url e)
      | Inr content \<Rightarrow>
     (case BeautifulSoup w content of
        Inl e \<Rightarrow> (fs, Failed url e)
      | Inr sp \<Rightarrow>
     (case h2t_handle w (markup sp) of
        Inl e \<Rightarrow> (fs, Failed url e)
      | Inr markdown \<Rightarrow>
     (case urlparse w url of
        Inl e \<Rightarrow> (fs, Failed url e)
      | Inr parsed \<Rightarrow>
     (let filename = filename_of parsed;
          file_dir = file_dir_of base parsed
      in case makedirs w fs file_dir of
           (fs1, Some e) \<Rightarrow> (fs1, Failed url e)
         | (fs1, None) \<Rightarrow>
     (let filepath = unique_filepath w fs1 file_dir filename;
          title = title_of sp filename;
          full_content =
            metadata_of title url (netloc parsed) (description_of sp) (now_isoformat w i) @ markdown
      in case write_file w fs1 filepath full_content of
           (fs2, Some e) \<Rightarrow> (fs2, Failed url e)
         | (fs2, None) \<Rightarrow> (fs2, Saved url filepath title)))))))"

text \<open>The \<^verbatim>\<open>for\<close> loop: \<open>results\<close> is returned in the order of the appends.\<close>

fun save_loop :: "world \<Rightarrow> nat \<Rightarrow> filesystem \<Rightarrow> string \<Rightarrow> string list \<Rightarrow> filesystem \<times> outcome list" where
  "save_loop w i fs base [] = (fs, [])"
| "save_loop w i fs base (url # urls) =
     (case process_url w i fs base url of
        (fs1, r) \<Rightarrow>
          (case save_loop w (Suc i) fs1 base urls of
             (fs2, rs) \<Rightarrow> (fs2, r # rs)))"

subsection \<open>batch_save: the index\<close>

text \<open>
  \<^verbatim>\<open>by_domain\<close> is a \<^verbatim>\<open>defaultdict(list)\<close>: a domain seen for the first time goes to
  the end with an empty list, and the entry is appended to the list of its domain.
\<close>

fun group_by_domain ::
  "world \<Rightarrow> (string \<times> outcome list) list \<Rightarrow> outcome list \<Rightarrow> string + (string \<times> outcome list) list" where
  "group_by_domain w by_domain [] = Inr by_domain"
| "group_by_domain w by_domain (Failed url e # results) = group_by_domain w by_domain results"
| "group_by_domain w by_domain (Saved url p title # results) =
     (case urlparse w url of
        Inl e \<Rightarrow> Inl e
      | Inr parsed \<Rightarrow>
          group_by_domain w
            (AList.update (netloc parsed)
               ((case map_of by_domain (netloc parsed) of None \<Rightarrow> [] | Some entries \<Rightarrow> entries)
                  @ [Saved url p title])
               by_domain)
            results)"

fun index_entries :: "world \<Rightarrow> string \<Rightarrow> string \<Rightarrow> outcome list \<Rightarrow> string + string" where
  "index_entries w base index_content [] = Inr index_content"
| "index_entries w base index_content (Failed url e # entries) = Inl ''path''"
| "index_entries w base index_content (Saved url p title # entries) =
     (case relpath (cwd w) p base of
        Inl e \<Rightarrow> Inl e
      | Inr relative_path \<Rightarrow>
          index_entries w base
            (index_content @ ''- ['' @ fmt title @ '']('' @ relative_path @ '')'' @ newline)
            entries)"

fun index_domains :: "world \<Rightarrow> string \<Rightarrow> string \<Rightarrow> (string \<times> outcome list) list \<Rightarrow> string + string" where
  "index_domains w base index_content [] = Inr index_content"
| "index_domains w base index_content ((domain, entries) # groups) =
     (case index_entries w base (index_content @ newline @ ''## '' @ domain @ newline @ newline) entries of
        Inl e \<Rightarrow> Inl e
      | Inr index_content' \<Rightarrow> index_domains w base index_content' groups)"

definition build_index :: "world \<Rightarrow> string \<Rightarrow> outcome list \<Rightarrow> string + string" where
  "build_index w base results =
     (case group_by_domain w [] results of
        Inl e \<Rightarrow> Inl e
      | Inr by_domain \<Rightarrow>
          index_domains w base (''# Crawled Content Index'' @ newline @ newline) by_domain)"

text \<open>
  Lines 343 to 369: the index is built and written; an exception is printed and goes no
  further. The result is the file system and what was printed.
\<close>

definition write_index :: "world \<Rightarrow> filesystem \<Rightarrow> string \<Rightarrow> outcome list \<Rightarrow> filesystem \<times> string list" where
  "write_index w fs base results =
     (case build_index w base results of
        Inl e \<Rightarrow> (fs, [''Error creating index: '' @ e])
      | Inr index_content \<Rightarrow>
          (case write_file w fs (join2 base ''index.md'') index_content of
             (fs', Some e) \<Rightarrow> (fs', [''Error creating index: '' @ e])
           | (fs', None) \<Rightarrow> (fs', [])))"

subsection \<open>batch_save\<close>

text \<open>
  The values that can be passed for \<^verbatim>\<open>urls\<close>. Lists hold the URLs; a dictionary has
  strings as keys.
\<close>

datatype pyval =
    PyNone
  | PyInt int
  | PyStr string
  | PyList "string list"
  | PyDict "(string \<times> pyval) list"

fun type_name :: "pyval \<Rightarrow> string" where
  "type_name PyNone = ''NoneType''"
| "type_name (PyInt n) = ''int''"
| "type_name (PyStr s) = ''str''"
| "type_name (PyList xs) = ''list''"
| "type_name (PyDict d) = ''dict''"

text \<open>\<^verbatim>\<open>list(d.keys())\<close>: every key once, in the order of insertion.\<close>

definition dict_keys :: "(string \<times> 'v) list \<Rightarrow> string list" where
  "dict_keys d = map fst (AList.clearjunk d)"

text \<open>
  Lines 259 to 265. \<open>Rejected\<close> is the early return of the error dictionary;
  \<open>Raises\<close> is the \<^verbatim>\<open>AttributeError\<close> of \<^verbatim>\<open>urls['links'].keys()\<close> when the value
  under \<^verbatim>\<open>'links'\<close> is not a dictionary, which nothing catches.
\<close>

datatype coerced = Accepted "string list" | Rejected | Raises string

fun coerce_urls :: "pyval \<Rightarrow> coerced" where
  "coerce_urls (PyDict d) =
     (case map_of d ''links'' of
        None \<Rightarrow> Rejected
      | Some (PyDict links) \<Rightarrow> Accepted (dict_keys links)
      | Some v \<Rightarrow> Raises ([CHR 0x27] @ type_name v @ [CHR 0x27] @ '' object has no attribute '' @ [CHR 0x27] @ ''keys'' @ [CHR 0x27]))"
| "coerce_urls (PyList urls) = Accepted urls"
| "coerce_urls v = Rejected"

record batch_result =
  status :: string
  processed :: "outcome list"
  base_path :: string
  total_saved :: nat
  total_errors :: nat

datatype tool_result = BatchResult batch_result | InputError string

text \<open>\<^verbatim>\<open>base_path = path if path else get_filepath()\<close>.\<close>

definition resolve_base_path :: "world \<Rightarrow> filesystem \<Rightarrow> string option \<Rightarrow> filesystem \<times> (string + string)" where
  "resolve_base_path w fs path_arg =
     (case path_arg of
        None \<Rightarrow> get_filepath w fs
      | Some p \<Rightarrow> if p = [] then get_filepath w fs else (fs, Inr p))"

text \<open>
  The tool. The result is the file system after the call, what was printed, and either
  the returned dictionary or (\<open>Inl\<close>) the message of an exception that left the function.
\<close>

definition batch_save ::
  "world \<Rightarrow> filesystem \<Rightarrow> pyval \<Rightarrow> string option \<Rightarrow> filesystem \<times> string list \<times> (string + tool_result)" where
  "batch_save w fs urls path_arg =
     (case coerce_urls urls of
        Rejected \<Rightarrow>
          (fs, [], Inr (InputError ''urls must be either a list of URLs or map_links() output dictionary''))
      | Raises e \<Rightarrow> (fs, [], Inl e)
      | Accepted url_list \<Rightarrow>
          (case resolve_base_path w fs path_arg of
             (fs0, Inl e) \<Rightarrow> (fs0, [], Inl e)
           | (fs0, Inr base) \<Rightarrow>
               (case save_loop w 0 fs0 base url_list of
                  (fs1, results) \<Rightarrow>
                    (case write_index w fs1 base results of
                       (fs2, printed) \<Rightarrow>
                         (fs2, printed,
                          Inr (BatchResult
                            \<lparr>status = ''success'',
                             processed = results,
                             base_path = base,
                             total_saved = length (filter (\<lambda>r. outcome_status r = ''saved'') results),
                             total_errors = length (filter (\<lambda>r. outcome_status r = ''error'') results)\<rparr>))))))"

subsection \<open>A small world to run the program in\<close>

text \<open>
  One host is down; every other address answers with a page whose markup is the address
  itself, so that the parser below can tell the pages apart: one page has an empty
  title element, one has no title element, one is a page of links. The working
  directory \<^verbatim>\<open>/srv\<close> exists, no output directory is configured, and the operating
  system refuses to open \<^verbatim>\<open>/srv/output/index.md\<close>.
\<close>

definition demo_anchors :: "(string \<times> string) list" where
  "demo_anchors =
     [(''https://a.example/one'', '' First ''),
      (''/relative'', ''Relative''),
      (''https://www.youtube.com/watch'', ''Video''),
      (''https://b.example/two'', ''   ''),
      (''https://a.example/one'', ''Second''),
      (''ftp://youtu.be/x'', ''Short'')]"

definition demo_soup :: "string \<Rightarrow> soup" where
  "demo_soup content =
     \<lparr>markup = content,
      title_tag =
        (if content = ''https://example.com/empty'' then Some None
         else if content = ''https://example.com/untitled.html'' then None
         else Some (Some ''Example'')),
      meta_description =
        (if content = ''https://example.com/empty'' then Some (Some ''An empty title'') else None),
      anchors = (if content = ''https://example.com/links'' then demo_anchors else [])\<rparr>"

definition demo_world :: world where
  "demo_world =
     \<lparr>cwd = ''/srv'',
      environ_OUTPUT_PATH = None,
      mcp_get_config = Inl ''no attribute get_config'',
      requests_get =
        (\<lambda>i url. if url = ''https://down.example/x'' then Inl ''connection refused'' else Inr url),
      BeautifulSoup = (\<lambda>content. Inr (demo_soup content)),
      h2t_handle = (\<lambda>m. Inr m),
      now_isoformat = (\<lambda>i. ''2024-05-01T12:00:0'' @ str_nat i),
      netloc_rejected = (\<lambda>nl. None),
      mkdir_refused = (\<lambda>k. None),
      open_refused = (\<lambda>k. if k = [''srv'', ''output'', ''index.md''] then Some ''denied'' else None)\<rparr>"

definition demo_fs :: filesystem where
  "demo_fs = [([''srv''], Dir)]"

subsection \<open>The claims in the words of the specification\<close>

text \<open>
  The stem as the specification words it: one trailing \<^verbatim>\<open>.html\<close> or \<^verbatim>\<open>.php\<close> is
  cut off the last segment and nothing else changes.
\<close>

definition strip_page_suffix :: "string \<Rightarrow> string" where
  "strip_page_suffix seg =
     (if endswith seg ''.html'' then take (length seg - 5) seg
      else if endswith seg ''.php'' then take (length seg - 4) seg
      else seg)"

definition stem_by_suffix :: "parsed_url \<Rightarrow> string" where
  "stem_by_suffix parsed =
     (let s = strip_page_suffix (last (path_parts_of parsed))
      in if s = [] then ''index'' else s)"

text \<open>
  A stage of the processing of one URL fails with a message: the fetch, the parser, the
  conversion to markdown, the parsing of the address, the creation of the directory, or
  the writing of the file. The file system is the one the URL is processed in.
\<close>

inductive stage_fails :: "world \<Rightarrow> nat \<Rightarrow> filesystem \<Rightarrow> string \<Rightarrow> string \<Rightarrow> string \<Rightarrow> bool"
  for w :: world and i :: nat and fs :: filesystem and base :: string and url :: string where
  fetch: "requests_get w i url = Inl e \<Longrightarrow> stage_fails w i fs base url e"
| parse: "requests_get w i url = Inr content \<Longrightarrow> BeautifulSoup w content = Inl e \<Longrightarrow>
     stage_fails w i fs base url e"
| convert: "requests_get w i url = Inr content \<Longrightarrow> BeautifulSoup w content = Inr sp \<Longrightarrow>
     h2t_handle w (markup sp) = Inl e \<Longrightarrow> stage_fails w i fs base url e"
| address: "requests_get w i url = Inr content \<Longrightarrow> BeautifulSoup w content = Inr sp \<Longrightarrow>
     h2t_handle w (markup sp) = Inr markdown \<Longrightarrow> urlparse w url = Inl e \<Longrightarrow>
     stage_fails w i fs base url e"
| directory: "requests_get w i url = Inr content \<Longrightarrow> BeautifulSoup w content = Inr sp \<Longrightarrow>
     h2t_handle w (markup sp) = Inr markdown \<Longrightarrow> urlparse w url = Inr parsed \<Longrightarrow>
     makedirs w fs (file_dir_of base parsed) = (fs1, Some e) \<Longrightarrow>
     stage_fails w i fs base url e"
| writing: "requests_get w i url = Inr content \<Longrightarrow> BeautifulSoup w content = Inr sp \<Longrightarrow>
     h2t_handle w (markup sp) = Inr markdown \<Longrightarrow> urlparse w url = Inr parsed \<Longrightarrow>
     makedirs w fs (file_dir_of base parsed) = (fs1, None) \<Longrightarrow>
     write_file w fs1 (unique_filepath w fs1 (file_dir_of base parsed) (filename_of parsed))
       (metadata_of (title_of sp (filename_of parsed)) url (netloc parsed) (description_of sp)
          (now_isoformat w i) @ markdown) = (fs2, Some e) \<Longrightarrow>
     stage_fails w i fs base url e"

section \<open>Properties\<close>

subsection \<open>Paths and names\<close>

lemma join2_plain:
  "b \<noteq> [] \<Longrightarrow> hd b \<noteq> CHR ''/'' \<Longrightarrow>
   join2 p b = (if p = [] \<or> last p = CHR ''/'' then p @ b else p @ ''/'' @ b)"
  by (cases b; cases p rule: rev_cases) (auto simp: join2_def startswith_def endswith_def)

lemma join2_nested:
  assumes "a \<noteq> []" "hd a \<noteq> CHR ''/''" "last a \<noteq> CHR ''/''" "b \<noteq> []" "hd b \<noteq> CHR ''/''"
  shows "join2 (join2 p a) b = join2 p (a @ ''/'' @ b)"
proof -
  have 1: "join2 p a = (if p = [] \<or> last p = CHR ''/'' then p @ a else p @ ''/'' @ a)"
    using assms by (simp add: join2_plain)
  have 2: "join2 p a \<noteq> []" "last (join2 p a) \<noteq> CHR ''/''" using assms 1 by auto
  have "join2 x b = x @ ''/'' @ b" if "x \<noteq> []" "last x \<noteq> CHR ''/''" for x
    using that assms(4,5) by (simp add: join2_plain)
  from this[OF 2] have 3: "join2 (join2 p a) b = join2 p a @ ''/'' @ b" .
  have 4: "join2 p (a @ ''/'' @ b)
           = (if p = [] \<or> last p = CHR ''/'' then p @ a @ ''/'' @ b else p @ ''/'' @ a @ ''/'' @ b)"
    using assms by (subst join2_plain) auto
  have "join2 p a @ ''/'' @ b
        = (if p = [] \<or> last p = CHR ''/'' then p @ a @ ''/'' @ b else p @ ''/'' @ a @ ''/'' @ b)"
    by (simp add: 1)
  with 3 4 show ?thesis by simp
qed

lemma py_replace_absent:
  "c \<notin> set s \<Longrightarrow> py_replace (c # rest) new s = s"
  by (induction s) (auto simp: startswith_def)

lemma py_replace_trailing:
  "c \<notin> set s \<Longrightarrow> py_replace (c # rest) [] (s @ c # rest) = s"
  by (induction s) (auto simp: startswith_def)

lemma endswith_append: "endswith (s @ t) t"
  by (simp add: endswith_def)

lemma endswith_last: "endswith s (t @ [c]) \<Longrightarrow> s \<noteq> [] \<and> last s = c"
  by (cases s rule: rev_cases) (auto simp: endswith_def)

lemma endswith_mem: "endswith s t \<Longrightarrow> set t \<subseteq> set s"
  unfolding endswith_def by (metis set_drop_subset)

lemma urlparse_port_url:
  "urlparse w ''https://example.com:8080/a/b/c.html''
   = Inr \<lparr>scheme = ''https'', netloc = ''example.com:8080'', path = ''/a/b/c.html''\<rparr>"
  unfolding urlparse_def by code_simp

lemma urlparse_bare_url:
  "urlparse w ''https://example.com''
   = Inr \<lparr>scheme = ''https'', netloc = ''example.com'', path = []\<rparr>"
  unfolding urlparse_def by code_simp

lemma file_dir_port_url:
  "file_dir_of base \<lparr>scheme = ''https'', netloc = ''example.com:8080'', path = ''/a/b/c.html''\<rparr>
   = join2 base ''example.com_8080/a/b''"
proof -
  have d: "domain_dir_of \<lparr>scheme = ''https'', netloc = ''example.com:8080'', path = ''/a/b/c.html''\<rparr>
       = ''example.com_8080''" by code_simp
  have pp: "path_parts_of \<lparr>scheme = ''https'', netloc = ''example.com:8080'', path = ''/a/b/c.html''\<rparr>
       = [''a'', ''b'', ''c.html'']" by code_simp
  have "join2 (join2 base ''example.com_8080'') ''a'' = join2 base (''example.com_8080'' @ ''/'' @ ''a'')"
    by (rule join2_nested) simp_all
  moreover have "join2 (join2 base ''example.com_8080/a'') ''b'' = join2 base (''example.com_8080/a'' @ ''/'' @ ''b'')"
    by (rule join2_nested) simp_all
  ultimately have "join2 (join2 (join2 base ''example.com_8080'') ''a'') ''b'' = join2 base ''example.com_8080/a/b''"
    by simp
  then show ?thesis by (simp add: file_dir_of_def d pp os_path_join_def)
qed

lemma file_dir_bare_url:
  "file_dir_of base \<lparr>scheme = ''https'', netloc = ''example.com'', path = []\<rparr> = join2 base ''example.com''"
proof -
  have d: "domain_dir_of \<lparr>scheme = ''https'', netloc = ''example.com'', path = []\<rparr> = ''example.com''"
    by code_simp
  have pp: "path_parts_of \<lparr>scheme = ''https'', netloc = ''example.com'', path = []\<rparr> = [''index'']"
    by code_simp
  show ?thesis by (simp add: file_dir_of_def d pp os_path_join_def)
qed

text \<open>
  Claim C7. The URL \<^verbatim>\<open>https://example.com:8080/a/b/c.html\<close> has the authority
  \<^verbatim>\<open>example.com:8080\<close>; its directory is \<^verbatim>\<open>example.com_8080/a/b\<close> joined to the
  output root (the colon of the authority replaced, one directory name) and its stem is
  \<^verbatim>\<open>c\<close>. The bare domain \<^verbatim>\<open>https://example.com\<close> has the stem \<^verbatim>\<open>index\<close>, and its
  directory is the domain directory itself, with nothing nested below it. This holds
  in every world and for every output root.
\<close>

theorem derive_path_examples:
  "urlparse w ''https://example.com:8080/a/b/c.html''
     = Inr \<lparr>scheme = ''https'', netloc = ''example.com:8080'', path = ''/a/b/c.html''\<rparr>
   \<and> file_dir_of base \<lparr>scheme = ''https'', netloc = ''example.com:8080'', path = ''/a/b/c.html''\<rparr>
       = join2 base ''example.com_8080/a/b''
   \<and> filename_of \<lparr>scheme = ''https'', netloc = ''example.com:8080'', path = ''/a/b/c.html''\<rparr> = ''c''
   \<and> urlparse w ''https://example.com''
       = Inr \<lparr>scheme = ''https'', netloc = ''example.com'', path = []\<rparr>
   \<and> file_dir_of base \<lparr>scheme = ''https'', netloc = ''example.com'', path = []\<rparr>
       = join2 base ''example.com''
   \<and> filename_of \<lparr>scheme = ''https'', netloc = ''example.com'', path = []\<rparr> = ''index''"
proof -
  have f: "filename_of \<lparr>scheme = ''https'', netloc = ''example.com:8080'', path = ''/a/b/c.html''\<rparr> = ''c''"
    by code_simp
  have f2: "filename_of \<lparr>scheme = ''https'', netloc = ''example.com'', path = []\<rparr> = ''index''"
    by code_simp
  show ?thesis
    using urlparse_port_url urlparse_bare_url file_dir_port_url file_dir_bare_url f f2 by blast
qed

theorem derive_path_examples_witness:
  "file_dir_of ''/srv/output'' \<lparr>scheme = ''https'', netloc = ''example.com:8080'', path = ''/a/b/c.html''\<rparr>
       = ''/srv/output/example.com_8080/a/b''
   \<and> file_dir_of ''/srv/output'' \<lparr>scheme = ''https'', netloc = ''example.com'', path = []\<rparr>
       = ''/srv/output/example.com''"
proof -
  have e: "join2 ''/srv/output'' ''example.com_8080/a/b'' = ''/srv/output/example.com_8080/a/b''"
          "join2 ''/srv/output'' ''example.com'' = ''/srv/output/example.com''"
    by code_simp+
  from derive_path_examples[of demo_world "''/srv/output''"] show ?thesis
    unfolding e by blast
qed

subsection \<open>The stem of a file name\<close>

text \<open>
  Claim C3 as stated fails: the stem is not the last segment with a trailing
  \<^verbatim>\<open>.html\<close> or \<^verbatim>\<open>.php\<close> cut off and the rest unchanged. For
  \<^verbatim>\<open>https://example.com/a/b.html.bak\<close> the segment \<^verbatim>\<open>b.html.bak\<close> has no such
  suffix, yet the stem that the program derives is \<^verbatim>\<open>b.bak\<close>.
\<close>

theorem stem_counterexample:
  "urlparse demo_world ''https://example.com/a/b.html.bak''
     = Inr \<lparr>scheme = ''https'', netloc = ''example.com'', path = ''/a/b.html.bak''\<rparr>
   \<and> filename_of \<lparr>scheme = ''https'', netloc = ''example.com'', path = ''/a/b.html.bak''\<rparr> = ''b.bak''
   \<and> stem_by_suffix \<lparr>scheme = ''https'', netloc = ''example.com'', path = ''/a/b.html.bak''\<rparr> = ''b.html.bak''"
  by code_simp

lemma py_replace_skip:
  "c \<notin> set s \<Longrightarrow> py_replace (c # rest) new (s @ t) = s @ py_replace (c # rest) new t"
  by (induction s) (auto simp: startswith_def)

lemma strip_page_suffix_plain: "CHR ''.'' \<notin> set s \<Longrightarrow> strip_page_suffix s = s"
  unfolding strip_page_suffix_def using endswith_mem[of s "''.html''"] endswith_mem[of s "''.php''"]
  by auto

lemma strip_page_suffix_html: "strip_page_suffix (s @ ''.html'') = s"
  unfolding strip_page_suffix_def using endswith_append[of s "''.html''"] by simp

lemma strip_page_suffix_php: "strip_page_suffix (s @ ''.php'') = s"
proof -
  have "\<not> endswith (s @ ''.php'') ''.html''"
    using endswith_last[of "s @ ''.php''" "''.htm''" "CHR ''l''"] by auto
  then show ?thesis
    unfolding strip_page_suffix_def using endswith_append[of s "''.php''"] by simp
qed

text \<open>
  Claim C3, amended. The stem is the last non-empty segment of the path (or
  \<^verbatim>\<open>index\<close> when the path has none) in which every occurrence of \<^verbatim>\<open>.html\<close> and then
  every occurrence of \<^verbatim>\<open>.php\<close> has been deleted, wherever it stands, and it is
  \<^verbatim>\<open>index\<close> when nothing is left. For a segment that is a name without a dot,
  followed by nothing, by \<^verbatim>\<open>.html\<close> or by \<^verbatim>\<open>.php\<close>, this is the name: there the stem
  is the segment with its suffix cut off, as the claim has it.
\<close>

theorem stem_deletes_everywhere:
  "filename_of parsed =
     (let s = py_replace ''.php'' [] (py_replace ''.html'' [] (last (path_parts_of parsed)))
      in if s = [] then ''index'' else s)
   \<and> (CHR ''.'' \<notin> set s
        \<and> last (path_parts_of parsed) \<in> {s, s @ ''.html'', s @ ''.php''}
      \<longrightarrow> filename_of parsed = (if s = [] then ''index'' else s)
          \<and> filename_of parsed = stem_by_suffix parsed)"
proof (intro conjI impI)
  show "filename_of parsed =
     (let s = py_replace ''.php'' [] (py_replace ''.html'' [] (last (path_parts_of parsed)))
      in if s = [] then ''index'' else s)"
    by (simp add: filename_of_def)
next
  assume a: "CHR ''.'' \<notin> set s \<and> last (path_parts_of parsed) \<in> {s, s @ ''.html'', s @ ''.php''}"
  then have ns: "CHR ''.'' \<notin> set s" by simp
  have "py_replace ''.html'' [] (s @ ''.php'') = s @ py_replace ''.html'' [] ''.php''"
    using ns by (rule py_replace_skip)
  moreover have "py_replace ''.html'' [] ''.php'' = ''.php''" by code_simp
  ultimately have h: "py_replace ''.html'' [] (s @ ''.php'') = s @ ''.php''" by simp
  have r: "py_replace ''.php'' [] (py_replace ''.html'' [] (last (path_parts_of parsed))) = s"
    using a py_replace_absent[OF ns] py_replace_trailing[OF ns] h by auto
  have t: "strip_page_suffix (last (path_parts_of parsed)) = s"
    using a strip_page_suffix_plain[OF ns] strip_page_suffix_html strip_page_suffix_php by auto
  show "filename_of parsed = (if s = [] then ''index'' else s)"
    by (simp add: filename_of_def r)
  show "filename_of parsed = stem_by_suffix parsed"
    by (simp add: filename_of_def stem_by_suffix_def r t)
qed

theorem stem_deletes_everywhere_witness:
  "filename_of \<lparr>scheme = ''https'', netloc = ''example.com'', path = ''/a/b.html.bak''\<rparr> = ''b.bak''
   \<and> filename_of \<lparr>scheme = ''https'', netloc = ''example.com'', path = ''/docs/page.php''\<rparr> = ''page''"
proof -
  have p1: "py_replace ''.php'' [] (py_replace ''.html'' [] (last (path_parts_of
              \<lparr>scheme = ''https'', netloc = ''example.com'', path = ''/a/b.html.bak''\<rparr>))) = ''b.bak''"
    by code_simp
  have p2: "CHR ''.'' \<notin> set ''page'' \<and> last (path_parts_of
              \<lparr>scheme = ''https'', netloc = ''example.com'', path = ''/docs/page.php''\<rparr>)
              \<in> {''page'', ''page'' @ ''.html'', ''page'' @ ''.php''}"
    by code_simp
  have a: "filename_of \<lparr>scheme = ''https'', netloc = ''example.com'', path = ''/a/b.html.bak''\<rparr> = ''b.bak''"
    using stem_deletes_everywhere[THEN conjunct1,
        of "\<lparr>scheme = ''https'', netloc = ''example.com'', path = ''/a/b.html.bak''\<rparr>"]
    unfolding Let_def p1 by simp
  have b: "filename_of \<lparr>scheme = ''https'', netloc = ''example.com'', path = ''/docs/page.php''\<rparr> = ''page''"
    using stem_deletes_everywhere[THEN conjunct2, rule_format, OF p2] by simp
  from a b show ?thesis by blast
qed

subsection \<open>The file system\<close>

lemma write_file_ok:
  assumes "write_file w fs p c = (fs', None)"
  shows "\<exists>k. resolve w fs p = Some k \<and> k \<noteq> [] \<and> \<not> is_dir fs k \<and> open_refused w k = None
       \<and> fs' = (k, File c) # fs"
proof (cases "resolve w fs p")
  case None
  with assms show ?thesis by (simp add: write_file_def)
next
  case (Some k)
  show ?thesis
  proof (cases "is_dir fs k")
    case True
    with Some assms show ?thesis by (simp add: write_file_def is_dir_def)
  next
    case False
    then have nd: "node_at fs k \<noteq> Some Dir" by (simp add: is_dir_def)
    then have k: "k \<noteq> []" by (auto simp: node_at_def)
    have w: "write_file w fs p c =
             (case open_refused w k of Some e \<Rightarrow> (fs, Some e) | None \<Rightarrow> ((k, File c) # fs, None))"
      using Some nd by (cases "node_at fs k") (auto simp: write_file_def split: node.splits)
    with assms have "open_refused w k = None \<and> fs' = (k, File c) # fs"
      by (cases "open_refused w k") auto
    with Some False k show ?thesis by blast
  qed
qed

lemma write_file_failed: "write_file w fs p c = (fs', Some e) \<Longrightarrow> fs' = fs"
  by (auto simp: write_file_def split: option.splits node.splits)


lemma is_dir_after_write: "\<not> is_dir fs k \<Longrightarrow> is_dir ((k, File c) # fs) k' = is_dir fs k'"
  by (auto simp: is_dir_def node_at_def)

lemma walk_same_dirs: "(\<And>k. is_dir fs' k = is_dir fs k) \<Longrightarrow> walk fs' cur cs = walk fs cur cs"
  by (induction cs arbitrary: cur) auto

lemma resolve_same_dirs: "(\<And>k. is_dir fs' k = is_dir fs k) \<Longrightarrow> resolve w fs' p = resolve w fs p"
  using walk_same_dirs[of fs' fs] by (simp add: resolve_def)

lemma resolve_after_write:
  "\<not> is_dir fs k \<Longrightarrow> resolve w ((k, File c) # fs) p = resolve w fs p"
  by (rule resolve_same_dirs) (rule is_dir_after_write)

lemma written_file_is_there:
  assumes "write_file w fs p c = (fs', None)"
  shows "\<exists>k. resolve w fs' p = Some k \<and> node_at fs' k = Some (File c)"
proof -
  from write_file_ok[OF assms] obtain k where
    k: "resolve w fs p = Some k" "k \<noteq> []" "\<not> is_dir fs k" "fs' = (k, File c) # fs" by blast
  then have "resolve w fs' p = Some k" by (simp add: resolve_after_write)
  moreover have "node_at fs' k = Some (File c)" using k by (simp add: node_at_def)
  ultimately show ?thesis by blast
qed

lemma node_at_cons_other: "k' \<noteq> k \<Longrightarrow> node_at ((k, n) # fs) k' = node_at fs k'"
  by (simp add: node_at_def)

lemma node_at_cons_same: "k \<noteq> [] \<Longrightarrow> node_at ((k, n) # fs) k = Some n"
  by (simp add: node_at_def)

lemma write_file_keeps:
  assumes "write_file w fs p c = (fs', None)" "\<not> path_exists w fs p" "node_at fs k = Some n"
  shows "node_at fs' k = Some n"
proof -
  from write_file_ok[OF assms(1)] obtain k0 where
    k0: "resolve w fs p = Some k0" "fs' = (k0, File c) # fs" by blast
  with assms(2) have "node_at fs k0 = None" by (simp add: path_exists_def)
  with assms(3) have "k \<noteq> k0" by auto
  with k0 assms(3) show ?thesis by (simp add: node_at_cons_other)
qed

text \<open>Creating directories adds directories where nothing was, and changes nothing else.\<close>

lemma mkdirs_walk_keeps:
  "node_at fs k = Some n \<Longrightarrow> node_at (fst (mkdirs_walk w fs cur cs)) k = Some n"
proof (induction cs arbitrary: fs cur)
  case Nil
  then show ?case by simp
next
  case (Cons c cs)
  show ?case
  proof (cases "c = [] \<or> c = ''.'' \<or> c = ''..''")
    case True
    then show ?thesis using Cons by auto
  next
    case False
    show ?thesis
    proof (cases "node_at fs (cur @ [c])")
      case None
      show ?thesis
      proof (cases "mkdir_refused w (cur @ [c])")
        case (Some e)
        then show ?thesis using False None Cons.prems by simp
      next
        case none: None
        have "k \<noteq> cur @ [c]" using None Cons.prems by auto
        then have "node_at ((cur @ [c], Dir) # fs) k = Some n"
          using Cons.prems by (simp add: node_at_cons_other)
        from Cons.IH[OF this] show ?thesis using False None none by simp
      qed
    next
      case (Some nd)
      then show ?thesis using False Cons by (cases nd) auto
    qed
  qed
qed

lemma makedirs_keeps:
  "node_at fs k = Some n \<Longrightarrow> node_at (fst (makedirs w fs p)) k = Some n"
  by (simp add: makedirs_def mkdirs_walk_keeps)

lemma mkdirs_walk_again:
  "mkdirs_walk w fs cur cs = (fs1, None) \<Longrightarrow> (\<And>k. is_dir fs1 k \<Longrightarrow> is_dir fs2 k) \<Longrightarrow>
   mkdirs_walk w fs2 cur cs = (fs2, None)"
proof (induction cs arbitrary: fs cur)
  case Nil
  then show ?case by simp
next
  case (Cons c cs)
  show ?case
  proof (cases "c = [] \<or> c = ''.'' \<or> c = ''..''")
    case True
    then show ?thesis using Cons by auto
  next
    case False
    have "\<exists>fs0. mkdirs_walk w fs0 (cur @ [c]) cs = (fs1, None) \<and> is_dir fs0 (cur @ [c])"
    proof (cases "node_at fs (cur @ [c])")
      case None
      then show ?thesis using False Cons.prems(1)
        by (cases "mkdir_refused w (cur @ [c])") (auto simp: is_dir_def node_at_def)
    next
      case (Some nd)
      then show ?thesis using False Cons.prems(1) by (cases nd) (auto simp: is_dir_def)
    qed
    then obtain fs0 where
      fs0: "mkdirs_walk w fs0 (cur @ [c]) cs = (fs1, None)" "is_dir fs0 (cur @ [c])" by blast
    have "node_at fs1 (cur @ [c]) = Some Dir"
      using mkdirs_walk_keeps[of fs0 "cur @ [c]" Dir w "cur @ [c]" cs] fs0 by (simp add: is_dir_def)
    then have "is_dir fs2 (cur @ [c])" using Cons.prems(2) by (simp add: is_dir_def)
    then have "node_at fs2 (cur @ [c]) = Some Dir" by (simp add: is_dir_def)
    moreover have "mkdirs_walk w fs2 (cur @ [c]) cs = (fs2, None)"
      using fs0(1) Cons.prems(2) by (rule Cons.IH)
    ultimately show ?thesis using False by simp
  qed
qed

lemma makedirs_again:
  "makedirs w fs p = (fs1, None) \<Longrightarrow> (\<And>k. is_dir fs1 k \<Longrightarrow> is_dir fs2 k) \<Longrightarrow>
   makedirs w fs2 p = (fs2, None)"
  unfolding makedirs_def using mkdirs_walk_again[of w fs "[]" _ fs1 fs2]
  by (auto split: if_splits)

subsection \<open>The first free name\<close>

lemma unique_loop_result:
  "\<not> path_exists w fs (unique_loop w fs d f fp k)
   \<and> (unique_loop w fs d f fp k = fp
      \<or> (path_exists w fs fp
         \<and> (\<exists>j\<ge>k. unique_loop w fs d f fp k = candidate d f j
                 \<and> (\<forall>m. k \<le> m \<longrightarrow> m < j \<longrightarrow> path_exists w fs (candidate d f m)))))"
proof (induction w fs d f fp k rule: unique_loop.induct)
  case (1 w fs d f fp k)
  show ?case
  proof (cases "path_exists w fs fp")
    case False
    then show ?thesis by (subst (1 2) unique_loop.simps) simp
  next
    case True
    let ?r = "unique_loop w fs d f (candidate d f k) (Suc k)"
    have eq: "unique_loop w fs d f fp k = ?r" using True by (subst unique_loop.simps) simp
    from 1[OF True] have free: "\<not> path_exists w fs ?r"
      and shape: "?r = candidate d f k
         \<or> (path_exists w fs (candidate d f k)
            \<and> (\<exists>j\<ge>Suc k. ?r = candidate d f j
                 \<and> (\<forall>m. Suc k \<le> m \<longrightarrow> m < j \<longrightarrow> path_exists w fs (candidate d f m))))"
      by blast+
    from shape have "\<exists>j\<ge>k. ?r = candidate d f j
                 \<and> (\<forall>m. k \<le> m \<longrightarrow> m < j \<longrightarrow> path_exists w fs (candidate d f m))"
    proof
      assume "?r = candidate d f k"
      then show ?thesis by (intro exI[of _ k]) simp
    next
      assume "path_exists w fs (candidate d f k)
            \<and> (\<exists>j\<ge>Suc k. ?r = candidate d f j
                 \<and> (\<forall>m. Suc k \<le> m \<longrightarrow> m < j \<longrightarrow> path_exists w fs (candidate d f m)))"
      then obtain j where j: "path_exists w fs (candidate d f k)" "Suc k \<le> j" "?r = candidate d f j"
        "\<forall>m. Suc k \<le> m \<longrightarrow> m < j \<longrightarrow> path_exists w fs (candidate d f m)" by blast
      have "\<forall>m. k \<le> m \<longrightarrow> m < j \<longrightarrow> path_exists w fs (candidate d f m)"
      proof (intro allI impI)
        fix m assume "k \<le> m" "m < j"
        then show "path_exists w fs (candidate d f m)"
          using j(1,4) by (cases "m = k") auto
      qed
      with j show ?thesis by (intro exI[of _ j]) simp
    qed
    with free True show ?thesis unfolding eq by blast
  qed
qed

lemma unique_filepath_free: "\<not> path_exists w fs (unique_filepath w fs d f)"
  unfolding unique_filepath_def using unique_loop_result by blast

subsection \<open>One URL\<close>

lemma pu_fetch_failed:
  "requests_get w i url = Inl e \<Longrightarrow> process_url w i fs base url = (fs, Failed url e)"
  by (simp add: process_url_def)

lemma pu_parse_failed:
  "requests_get w i url = Inr content \<Longrightarrow> BeautifulSoup w content = Inl e \<Longrightarrow>
   process_url w i fs base url = (fs, Failed url e)"
  by (simp add: process_url_def)

lemma pu_convert_failed:
  "requests_get w i url = Inr content \<Longrightarrow> BeautifulSoup w content = Inr sp \<Longrightarrow>
   h2t_handle w (markup sp) = Inl e \<Longrightarrow>
   process_url w i fs base url = (fs, Failed url e)"
  by (simp add: process_url_def)

lemma pu_urlparse_failed:
  "requests_get w i url = Inr content \<Longrightarrow> BeautifulSoup w content = Inr sp \<Longrightarrow>
   h2t_handle w (markup sp) = Inr markdown \<Longrightarrow> urlparse w url = Inl e \<Longrightarrow>
   process_url w i fs base url = (fs, Failed url e)"
  by (simp add: process_url_def)

lemma pu_makedirs_failed:
  "requests_get w i url = Inr content \<Longrightarrow> BeautifulSoup w content = Inr sp \<Longrightarrow>
   h2t_handle w (markup sp) = Inr markdown \<Longrightarrow> urlparse w url = Inr parsed \<Longrightarrow>
   makedirs w fs (file_dir_of base parsed) = (fs1, Some e) \<Longrightarrow>
   process_url w i fs base url = (fs1, Failed url e)"
  by (simp add: process_url_def)

lemma pu_write_failed:
  "requests_get w i url = Inr content \<Longrightarrow> BeautifulSoup w content = Inr sp \<Longrightarrow>
   h2t_handle w (markup sp) = Inr markdown \<Longrightarrow> urlparse w url = Inr parsed \<Longrightarrow>
   makedirs w fs (file_dir_of base parsed) = (fs1, None) \<Longrightarrow>
   write_file w fs1 (unique_filepath w fs1 (file_dir_of base parsed) (filename_of parsed))
     (metadata_of (title_of sp (filename_of parsed)) url (netloc parsed) (description_of sp)
        (now_isoformat w i) @ markdown) = (fs2, Some e) \<Longrightarrow>
   process_url w i fs base url = (fs2, Failed url e)"
  by (simp add: process_url_def)

lemma pu_saved:
  "requests_get w i url = Inr content \<Longrightarrow> BeautifulSoup w content = Inr sp \<Longrightarrow>
   h2t_handle w (markup sp) = Inr markdown \<Longrightarrow> urlparse w url = Inr parsed \<Longrightarrow>
   makedirs w fs (file_dir_of base parsed) = (fs1, None) \<Longrightarrow>
   write_file w fs1 (unique_filepath w fs1 (file_dir_of base parsed) (filename_of parsed))
     (metadata_of (title_of sp (filename_of parsed)) url (netloc parsed) (description_of sp)
        (now_isoformat w i) @ markdown) = (fs2, None) \<Longrightarrow>
   process_url w i fs base url
     = (fs2, Saved url (unique_filepath w fs1 (file_dir_of base parsed) (filename_of parsed))
               (title_of sp (filename_of parsed)))"
  by (simp add: process_url_def Let_def)


text \<open>What a saved entry tells about the run that produced it.\<close>

lemma process_url_saved:
  assumes "process_url w i fs base url = (fs', Saved u p t)"
  shows "\<exists>content sp markdown parsed fs1.
           requests_get w i url = Inr content \<and> BeautifulSoup w content = Inr sp
         \<and> h2t_handle w (markup sp) = Inr markdown \<and> urlparse w url = Inr parsed
         \<and> makedirs w fs (file_dir_of base parsed) = (fs1, None)
         \<and> p = unique_filepath w fs1 (file_dir_of base parsed) (filename_of parsed)
         \<and> t = title_of sp (filename_of parsed)
         \<and> write_file w fs1 p
               (metadata_of t url (netloc parsed) (description_of sp) (now_isoformat w i) @ markdown)
             = (fs', None)
         \<and> u = url"
proof -
  obtain content where 1: "requests_get w i url = Inr content"
    using assms by (cases "requests_get w i url") (auto simp: pu_fetch_failed)
  obtain sp where 2: "BeautifulSoup w content = Inr sp"
    using assms 1 by (cases "BeautifulSoup w content") (auto simp: pu_parse_failed)
  obtain markdown where 3: "h2t_handle w (markup sp) = Inr markdown"
    using assms 1 2 by (cases "h2t_handle w (markup sp)") (auto simp: pu_convert_failed)
  obtain parsed where 4: "urlparse w url = Inr parsed"
    using assms 1 2 3 by (cases "urlparse w url") (auto simp: pu_urlparse_failed)
  obtain fs1 r1 where m: "makedirs w fs (file_dir_of base parsed) = (fs1, r1)"
    by (cases "makedirs w fs (file_dir_of base parsed)")
  have 5: "r1 = None"
    using assms pu_makedirs_failed[OF 1 2 3 4, of fs base fs1] m by (cases r1) auto
  let ?p = "unique_filepath w fs1 (file_dir_of base parsed) (filename_of parsed)"
  let ?c = "metadata_of (title_of sp (filename_of parsed)) url (netloc parsed) (description_of sp)
              (now_isoformat w i) @ markdown"
  obtain fs2 r2 where wr: "write_file w fs1 ?p ?c = (fs2, r2)"
    by (cases "write_file w fs1 ?p ?c")
  have 6: "r2 = None"
    using assms pu_write_failed[OF 1 2 3 4 m[unfolded 5], of fs2] wr by (cases r2) auto
  from pu_saved[OF 1 2 3 4 m[unfolded 5] wr[unfolded 6]] assms
  have "fs' = fs2" "u = url" "p = ?p" "t = title_of sp (filename_of parsed)" by auto
  with 1 2 3 4 m 5 wr 6 show ?thesis by blast
qed


text \<open>A document is written where nothing was: what was there before is there after.\<close>

lemma process_url_keeps:
  assumes "node_at fs k = Some n"
  shows "node_at (fst (process_url w i fs base url)) k = Some n"
proof (cases "requests_get w i url")
  case (Inl e)
  with assms show ?thesis by (simp add: pu_fetch_failed)
next
  case 1: (Inr content)
  show ?thesis
  proof (cases "BeautifulSoup w content")
    case (Inl e)
    with 1 assms show ?thesis by (simp add: pu_parse_failed)
  next
    case 2: (Inr sp)
    show ?thesis
    proof (cases "h2t_handle w (markup sp)")
      case (Inl e)
      with 1 2 assms show ?thesis by (simp add: pu_convert_failed)
    next
      case 3: (Inr markdown)
      show ?thesis
      proof (cases "urlparse w url")
        case (Inl e)
        with 1 2 3 assms show ?thesis by (simp add: pu_urlparse_failed)
      next
        case 4: (Inr parsed)
        obtain fs1 r1 where m: "makedirs w fs (file_dir_of base parsed) = (fs1, r1)"
          by (cases "makedirs w fs (file_dir_of base parsed)")
        have k1: "node_at fs1 k = Some n"
          using makedirs_keeps[OF assms, of w "file_dir_of base parsed"] m by simp
        show ?thesis
        proof (cases r1)
          case (Some e)
          from pu_makedirs_failed[OF 1 2 3 4 m[unfolded Some]] k1 show ?thesis by simp
        next
          case None
          let ?p = "unique_filepath w fs1 (file_dir_of base parsed) (filename_of parsed)"
          let ?c = "metadata_of (title_of sp (filename_of parsed)) url (netloc parsed)
                      (description_of sp) (now_isoformat w i) @ markdown"
          obtain fs2 r2 where wr: "write_file w fs1 ?p ?c = (fs2, r2)"
            by (cases "write_file w fs1 ?p ?c")
          show ?thesis
          proof (cases r2)
            case (Some e)
            from write_file_failed[OF wr[unfolded Some]] have "fs2 = fs1" .
            with pu_write_failed[OF 1 2 3 4 m[unfolded None] wr[unfolded Some]] k1
            show ?thesis by simp
          next
            case none: None
            have "\<not> path_exists w fs1 ?p" by (rule unique_filepath_free)
            from write_file_keeps[OF wr[unfolded none] this k1] have "node_at fs2 k = Some n" .
            with pu_saved[OF 1 2 3 4 m[unfolded None] wr[unfolded none]] show ?thesis by simp
          qed
        qed
      qed
    qed
  qed
qed


subsection \<open>The loop over the URLs\<close>

lemma save_loop_Cons:
  "save_loop w i fs base (u # us)
   = (fst (save_loop w (Suc i) (fst (process_url w i fs base u)) base us),
      snd (process_url w i fs base u)
        # snd (save_loop w (Suc i) (fst (process_url w i fs base u)) base us))"
  by (simp split: prod.splits)

lemma save_loop_length: "length (snd (save_loop w i fs base urls)) = length urls"
  by (induction urls arbitrary: i fs) (simp_all only: save_loop_Cons save_loop.simps snd_conv list.size)



lemma save_loop_keeps:
  "node_at fs k = Some n \<Longrightarrow> node_at (fst (save_loop w i fs base urls)) k = Some n"
proof (induction urls arbitrary: i fs)
  case Nil
  then show ?case by simp
next
  case (Cons u us)
  have "node_at (fst (process_url w i fs base u)) k = Some n"
    using Cons.prems by (rule process_url_keeps)
  from Cons.IH[OF this, of "Suc i"] show ?case by (simp only: save_loop_Cons fst_conv)
qed

subsection \<open>The whole batch\<close>

lemma batch_save_list:
  assumes "resolve_base_path w fs path_arg = (fs0, Inr base)"
  shows "batch_save w fs (PyList urls) path_arg
         = (fst (write_index w (fst (save_loop w 0 fs0 base urls)) base (snd (save_loop w 0 fs0 base urls))),
            snd (write_index w (fst (save_loop w 0 fs0 base urls)) base (snd (save_loop w 0 fs0 base urls))),
            Inr (BatchResult
              \<lparr>status = ''success'',
               processed = snd (save_loop w 0 fs0 base urls),
               base_path = base,
               total_saved = length (filter (\<lambda>r. outcome_status r = ''saved'') (snd (save_loop w 0 fs0 base urls))),
               total_errors = length (filter (\<lambda>r. outcome_status r = ''error'') (snd (save_loop w 0 fs0 base urls)))\<rparr>))"
  using assms by (simp add: batch_save_def split: prod.splits)



subsection \<open>The title of a document\<close>

text \<open>
  Claim C10. When the fetched document has a title element, the title of the saved
  entry and of the preamble written to the file is the string of that element, also
  when that string is Python's \<^verbatim>\<open>None\<close> (an empty element): the preamble then reads
  \<^verbatim>\<open>title: None\<close>, and the stem is not used. The stem is the title only when the
  document has no title element.
\<close>

theorem absent_title_string_is_used:
  assumes "requests_get w i url = Inr content" "BeautifulSoup w content = Inr sp"
      and "process_url w i fs base url = (fs', Saved u p t)"
  shows "\<exists>parsed markdown k.
           urlparse w url = Inr parsed \<and> h2t_handle w (markup sp) = Inr markdown
         \<and> (\<forall>s. title_tag sp = Some s \<longrightarrow> t = s)
         \<and> (title_tag sp = Some None \<longrightarrow> t = None \<and> fmt t = ''None'')
         \<and> (title_tag sp = None \<longrightarrow> t = Some (filename_of parsed))
         \<and> resolve w fs' p = Some k
         \<and> node_at fs' k
             = Some (File (metadata_of t url (netloc parsed) (description_of sp) (now_isoformat w i)
                             @ markdown))"
proof -
  from process_url_saved[OF assms(3)] obtain content' sp' markdown parsed fs1 where
    s: "requests_get w i url = Inr content'" "BeautifulSoup w content' = Inr sp'"
       "h2t_handle w (markup sp') = Inr markdown" "urlparse w url = Inr parsed"
       "t = title_of sp' (filename_of parsed)"
       "write_file w fs1 p
          (metadata_of t url (netloc parsed) (description_of sp') (now_isoformat w i) @ markdown)
        = (fs', None)"
    by blast
  from s(1) assms(1) have "content' = content" by simp
  with s(2) assms(2) have sp: "sp' = sp" by simp
  define c where "c = metadata_of t url (netloc parsed) (description_of sp) (now_isoformat w i) @ markdown"
  have "write_file w fs1 p c = (fs', None)" using s(6) unfolding sp c_def .
  from written_file_is_there[OF this] obtain k where
    k: "resolve w fs' p = Some k" "node_at fs' k = Some (File c)"
    by blast
  have t0: "t = title_of sp (filename_of parsed)" using s(5) unfolding sp .
  have t1: "\<forall>s. title_tag sp = Some s \<longrightarrow> t = s"
    unfolding t0 by (simp add: title_of_def)
  have t2: "title_tag sp = Some None \<longrightarrow> t = None \<and> fmt t = ''None''"
    unfolding t0 by (simp add: title_of_def)
  have t3: "title_tag sp = None \<longrightarrow> t = Some (filename_of parsed)"
    unfolding t0 by (simp add: title_of_def)
  have h: "h2t_handle w (markup sp) = Inr markdown" using s(3) unfolding sp .
  show ?thesis
    apply (rule exI[of _ parsed], rule exI[of _ markdown], rule exI[of _ k])
    using s(4) h t1 t2 t3 k unfolding c_def by (intro conjI)
qed

theorem absent_title_string_is_used_witness:
  "title_tag (demo_soup ''https://example.com/empty'') = Some None
   \<and> snd (process_url demo_world 0 demo_fs ''/srv/output'' ''https://example.com/empty'')
       = Saved ''https://example.com/empty'' ''/srv/output/example.com/empty.md'' None
   \<and> (\<exists>k. node_at (fst (process_url demo_world 0 demo_fs ''/srv/output'' ''https://example.com/empty'')) k
       = Some (File (''---'' @ newline @ ''title: None'' @ newline
                     @ ''url: https://example.com/empty'' @ newline
                     @ ''domain: example.com'' @ newline
                     @ ''description: An empty title'' @ newline
                     @ ''date_saved: 2024-05-01T12:00:00'' @ newline
                     @ ''---'' @ newline @ newline @ ''https://example.com/empty'')))"
proof -
  define FS where "FS = fst (process_url demo_world 0 demo_fs ''/srv/output'' ''https://example.com/empty'')"
  have a: "requests_get demo_world 0 ''https://example.com/empty'' = Inr ''https://example.com/empty''"
    by code_simp
  have b: "BeautifulSoup demo_world ''https://example.com/empty'' = Inr (demo_soup ''https://example.com/empty'')"
    by code_simp
  have tt: "title_tag (demo_soup ''https://example.com/empty'') = Some None" by code_simp
  have sv: "snd (process_url demo_world 0 demo_fs ''/srv/output'' ''https://example.com/empty'')
       = Saved ''https://example.com/empty'' ''/srv/output/example.com/empty.md'' None"
    by code_simp
  then have c: "process_url demo_world 0 demo_fs ''/srv/output'' ''https://example.com/empty''
       = (FS, Saved ''https://example.com/empty'' ''/srv/output/example.com/empty.md'' None)"
    unfolding FS_def by (metis prod.collapse)
  have u: "urlparse demo_world ''https://example.com/empty''
       = Inr \<lparr>scheme = ''https'', netloc = ''example.com'', path = ''/empty''\<rparr>" by code_simp
  have m: "metadata_of None ''https://example.com/empty''
             (netloc \<lparr>scheme = ''https'', netloc = ''example.com'', path = ''/empty''\<rparr>)
             (description_of (demo_soup ''https://example.com/empty'')) (now_isoformat demo_world 0)
           = ''---'' @ newline @ ''title: None'' @ newline
                     @ ''url: https://example.com/empty'' @ newline
                     @ ''domain: example.com'' @ newline
                     @ ''description: An empty title'' @ newline
                     @ ''date_saved: 2024-05-01T12:00:00'' @ newline
                     @ ''---'' @ newline @ newline" by code_simp
  have h: "h2t_handle demo_world (markup (demo_soup ''https://example.com/empty'')) = Inr ''https://example.com/empty''"
    by code_simp
  from absent_title_string_is_used[OF a b c] obtain parsed markdown k where
    r: "urlparse demo_world ''https://example.com/empty'' = Inr parsed"
       "h2t_handle demo_world (markup (demo_soup ''https://example.com/empty'')) = Inr markdown"
       "node_at FS k
          = Some (File (metadata_of None ''https://example.com/empty'' (netloc parsed)
                (description_of (demo_soup ''https://example.com/empty'')) (now_isoformat demo_world 0)
              @ markdown))"
    by blast
  from r(1) u have p: "parsed = \<lparr>scheme = ''https'', netloc = ''example.com'', path = ''/empty''\<rparr>"
    by simp
  from r(2) h have md: "markdown = ''https://example.com/empty''" by simp
  have "node_at FS k = Some (File ((''---'' @ newline @ ''title: None'' @ newline
                     @ ''url: https://example.com/empty'' @ newline
                     @ ''domain: example.com'' @ newline
                     @ ''description: An empty title'' @ newline
                     @ ''date_saved: 2024-05-01T12:00:00'' @ newline
                     @ ''---'' @ newline @ newline) @ ''https://example.com/empty''))"
    using r(3) unfolding p md m .
  then have "\<exists>k. node_at FS k = Some (File (''---'' @ newline @ ''title: None'' @ newline
                     @ ''url: https://example.com/empty'' @ newline
                     @ ''domain: example.com'' @ newline
                     @ ''description: An empty title'' @ newline
                     @ ''date_saved: 2024-05-01T12:00:00'' @ newline
                     @ ''---'' @ newline @ newline @ ''https://example.com/empty''))"
    by (intro exI[of _ k]) (simp only: append_assoc)
  with tt sv show ?thesis unfolding FS_def by (intro conjI)
qed

subsection \<open>The shapes of the input\<close>



subsection \<open>The result of a batch\<close>

text \<open>
  Claim C5 as stated fails: not every well-formed input gets a result. Without a path
  argument the output root comes from \<^verbatim>\<open>get_filepath\<close>, whose exception nothing
  catches: with a regular file named \<^verbatim>\<open>output\<close> in the working directory,
  \<^verbatim>\<open>os.makedirs\<close> raises and so does \<^verbatim>\<open>batch_save\<close>.
\<close>

theorem resolver_failure_counterexample:
  "coerce_urls (PyList [''https://example.com'']) = Accepted [''https://example.com'']
   \<and> batch_save demo_world [([''srv''], Dir), ([''srv'', ''output''], File ''notes'')]
        (PyList [''https://example.com'']) None
     = ([([''srv''], Dir), ([''srv'', ''output''], File ''notes'')], [], Inl ''[Errno 17] File exists'')"
  by code_simp

lemma saved_or_error:
  "length (filter (\<lambda>r. outcome_status r = ''saved'') rs)
   + length (filter (\<lambda>r. outcome_status r = ''error'') rs) = length rs"
proof (induction rs)
  case Nil
  then show ?case by simp
next
  case (Cons r rs)
  then show ?case by (cases r) simp_all
qed

lemma explicit_base_path: "p \<noteq> [] \<Longrightarrow> resolve_base_path w fs (Some p) = (fs, Inr p)"
  by (simp add: resolve_base_path_def)

text \<open>
  Claim C5, amended. For every well-formed input whose output root is resolved (a
  non-empty path argument, see \<open>explicit_base_path\<close>, or \<^verbatim>\<open>get_filepath\<close> returning),
  \<^verbatim>\<open>batch_save\<close> returns a result with the status \<^verbatim>\<open>success\<close>; its counts are the
  numbers of saved and of error entries, which add up to the number of URLs; and the
  result is made of the entries of the loop alone, so it is the same whether the index
  was written or its failure was printed.
\<close>

theorem batch_result_when_root_resolved:
  assumes "coerce_urls urls = Accepted url_list"
      and "resolve_base_path w fs path_arg = (fs0, Inr base)"
  shows "\<exists>fs' printed r.
           batch_save w fs urls path_arg = (fs', printed, Inr (BatchResult r))
         \<and> status r = ''success''
         \<and> base_path r = base
         \<and> processed r = snd (save_loop w 0 fs0 base url_list)
         \<and> total_saved r = length (filter (\<lambda>r. outcome_status r = ''saved'') (processed r))
         \<and> total_errors r = length (filter (\<lambda>r. outcome_status r = ''error'') (processed r))
         \<and> total_saved r + total_errors r = length url_list
         \<and> (fs', printed)
             = write_index w (fst (save_loop w 0 fs0 base url_list)) base (processed r)"
proof -
  let ?rs = "snd (save_loop w 0 fs0 base url_list)"
  have "batch_save w fs urls path_arg = batch_save w fs (PyList url_list) path_arg"
    using assms(1) by (simp only: batch_save_def coerce_urls.simps)
  also note batch_save_list[OF assms(2), of url_list]
  finally have b: "batch_save w fs urls path_arg
         = (fst (write_index w (fst (save_loop w 0 fs0 base url_list)) base ?rs),
            snd (write_index w (fst (save_loop w 0 fs0 base url_list)) base ?rs),
            Inr (BatchResult
              \<lparr>status = ''success'', processed = ?rs, base_path = base,
               total_saved = length (filter (\<lambda>r. outcome_status r = ''saved'') ?rs),
               total_errors = length (filter (\<lambda>r. outcome_status r = ''error'') ?rs)\<rparr>))" .
  have n: "length (filter (\<lambda>r. outcome_status r = ''saved'') ?rs)
           + length (filter (\<lambda>r. outcome_status r = ''error'') ?rs) = length url_list"
    using saved_or_error[of ?rs] save_loop_length[of w 0 fs0 base url_list] by simp
  show ?thesis unfolding b using n by simp
qed

theorem batch_result_when_root_resolved_witness:
  "coerce_urls (PyList [''https://down.example/x'', ''https://example.com/a/b.html''])
     = Accepted [''https://down.example/x'', ''https://example.com/a/b.html'']
   \<and> resolve_base_path demo_world demo_fs None
     = ([([''srv'', ''output''], Dir), ([''srv''], Dir)], Inr ''/srv/output'')
   \<and> (\<exists>fs' r.
         batch_save demo_world demo_fs
           (PyList [''https://down.example/x'', ''https://example.com/a/b.html'']) None
           = (fs', [''Error creating index: denied''], Inr (BatchResult r))
       \<and> status r = ''success'' \<and> total_saved r = 1 \<and> total_errors r = 1)"
proof -
  have c: "coerce_urls (PyList [''https://down.example/x'', ''https://example.com/a/b.html''])
     = Accepted [''https://down.example/x'', ''https://example.com/a/b.html'']" by simp
  have h: "resolve_base_path demo_world demo_fs None
     = ([([''srv'', ''output''], Dir), ([''srv''], Dir)], Inr ''/srv/output'')"
    by code_simp
  have v: "snd (batch_save demo_world demo_fs
           (PyList [''https://down.example/x'', ''https://example.com/a/b.html'']) None)
        = ([''Error creating index: denied''],
           Inr (BatchResult
            \<lparr>status = ''success'',
             processed = [Failed ''https://down.example/x'' ''connection refused'',
               Saved ''https://example.com/a/b.html'' ''/srv/output/example.com/a/b.md'' (Some ''Example'')],
             base_path = ''/srv/output'', total_saved = 1, total_errors = 1\<rparr>))"
    by code_simp
  from batch_result_when_root_resolved[OF c h]
  obtain fs' printed r where
    b: "batch_save demo_world demo_fs
           (PyList [''https://down.example/x'', ''https://example.com/a/b.html'']) None
           = (fs', printed, Inr (BatchResult r))" "status r = ''success''" by blast
  with v have "printed = [''Error creating index: denied'']" "total_saved r = 1" "total_errors r = 1"
    by auto
  with b c h show ?thesis by blast
qed

end
